theory Spec2Isabelle
  imports Main
begin

section \<open>Strings: the two Python string operations the code uses\<close>

text \<open>
  Python's \<^verbatim>\<open>s.split(sep)\<close> with a one-character separator: the pieces between the
  separators, in order; a string without the separator gives one piece, the empty string
  gives one empty piece. The separators of the source (\<^verbatim>\<open>#\<close> and \<^verbatim>\<open>,\<close>) are ASCII, so
  splitting the UTF-8 bytes and splitting the code points agree.
\<close>

fun str_split :: "char \<Rightarrow> string \<Rightarrow> string list" where
  "str_split sep [] = [[]]"
| "str_split sep (c # cs) =
     (if c = sep then [] # str_split sep cs
      else (case str_split sep cs of
              [] \<Rightarrow> [[c]]
            | w # ws \<Rightarrow> (c # w) # ws))"

text \<open>Python's \<^verbatim>\<open>sep.join(values)\<close>.\<close>

fun str_join :: "string \<Rightarrow> string list \<Rightarrow> string" where
  "str_join sep [] = []"
| "str_join sep [v] = v"
| "str_join sep (v # w # vs) = v @ sep @ str_join sep (w # vs)"

section \<open>Permission encoding (utils.py)\<close>

text \<open>
  \<^verbatim>\<open>casbin_permission_encode(*field_values)\<close>: the positional arguments are a list; a
  list shorter than five is extended with empty strings, a longer one is joined as it is.
\<close>

definition casbin_permission_encode :: "string list \<Rightarrow> string" where
  "casbin_permission_encode field_values =
     (let values = field_values;
          values = (if length values < 5
                    then values @ replicate (5 - length values) []
                    else values)
      in str_join ''#'' values)"

text \<open>
  \<^verbatim>\<open>casbin_permission_decode(permission)\<close>: split on \<^verbatim>\<open>#\<close>, extend to five when shorter.
  There is no truncation in the source.
\<close>

definition casbin_permission_decode :: "string \<Rightarrow> string list" where
  "casbin_permission_decode permission =
     (let field_values = str_split CHR ''#'' permission
      in if length field_values < 5
         then field_values @ replicate (5 - length field_values) []
         else field_values)"

section \<open>Action normalization (utils.py)\<close>

definition encode_admin_action :: "string \<Rightarrow> string" where
  "encode_admin_action action =
     (let perfix = ''admin:'' in
      if action \<in> {''page''} then perfix @ action
      else let perfix = perfix @ ''page:'' in
        if action \<in> {''list'', ''update'', ''bulk_update'', ''create'', ''bulk_create'',
                      ''read'', ''submit''}
        then perfix @ action
        else let perfix = perfix @ ''action:'' in perfix @ action)"

section \<open>The permission-option tree (utils.py)\<close>

text \<open>
  An option is the dict \<^verbatim>\<open>{"label", "value", "sort", "children"}\<close> that
  \<^verbatim>\<open>get_admin_action_options\<close> builds. The key \<^verbatim>\<open>"children"\<close> is absent for a plain
  page (\<open>None\<close>) and a list otherwise. \<^verbatim>\<open>"sort"\<close> is the page schema's sort weight, which
  may be \<^verbatim>\<open>None\<close>; the entries of an admin's actions carry no \<^verbatim>\<open>"sort"\<close> key, which is
  \<open>None\<close> here as well (the key is read on the entries of a group only).
\<close>

datatype option_item =
  Item (opt_label: string) (opt_value: string) (opt_sort: "int option")
       (opt_children: "option_item list option")

text \<open>
  \<^verbatim>\<open>filter_options(options, filter_func)\<close>, on values: the loop over \<^verbatim>\<open>options\<close>; an option
  that fails \<^verbatim>\<open>filter_func\<close> is skipped before its children are looked at; a surviving
  option with a non-empty \<^verbatim>\<open>children\<close> list (\<^verbatim>\<open>option.get("children")\<close> is truthy) gets the
  filtered list, any other surviving option is appended as it is.
\<close>

fun filter_options :: "option_item list \<Rightarrow> (option_item \<Rightarrow> bool) \<Rightarrow> option_item list" where
  "filter_options [] filter_func = []"
| "filter_options (Item l v s None # options) filter_func =
     (if \<not> filter_func (Item l v s None) then filter_options options filter_func
      else Item l v s None # filter_options options filter_func)"
| "filter_options (Item l v s (Some []) # options) filter_func =
     (if \<not> filter_func (Item l v s (Some [])) then filter_options options filter_func
      else Item l v s (Some []) # filter_options options filter_func)"
| "filter_options (Item l v s (Some (c # cs)) # options) filter_func =
     (if \<not> filter_func (Item l v s (Some (c # cs))) then filter_options options filter_func
      else Item l v s (Some (filter_options (c # cs) filter_func))
             # filter_options options filter_func)"

section \<open>The admin tree and the option tree built from it (utils.py)\<close>

text \<open>
  The admin classes come from the admin framework, which is not part of the sources. The
  datatype keeps what \<^verbatim>\<open>get_admin_action_options\<close> reads of an admin: its class (as far
  as the \<^verbatim>\<open>isinstance\<close> tests tell classes apart), \<^verbatim>\<open>unique_id\<close>, \<^verbatim>\<open>page_schema\<close> (\<open>None\<close>
  when it is falsy), the dict \<^verbatim>\<open>registered_admin_actions\<close> (in its order) and, for a group,
  the admins it iterates over.
\<close>

datatype page_schema = PageSchema (ps_label: string) (ps_sort: "int option")

datatype admin_action = AdminAction (action_name: string) (action_label: string)

datatype admin =
    PageSchemaAdmin string "page_schema option"
  | ModelAdmin string "page_schema option" "(string \<times> admin_action) list"
  | FormAdmin string "page_schema option" "(string \<times> admin_action) list"
  | BaseActionAdmin string "page_schema option" "(string \<times> admin_action) list"
  | AdminGroup string "page_schema option" "admin list"

text \<open>The two label literals of the source, as their UTF-8 bytes.\<close>

definition label_view_list :: string where
  "label_view_list = map char_of
     [0xE6, 0x9F, 0xA5, 0xE7, 0x9C, 0x8B, 0xE5, 0x88, 0x97, 0xE8, 0xA1, 0xA8 :: nat]"

definition label_submit :: string where
  "label_submit = map char_of [0xE6, 0x8F, 0x90, 0xE4, 0xBA, 0xA4 :: nat]"

definition action_option :: "string \<Rightarrow> admin_action \<Rightarrow> option_item" where
  "action_option uid admin_action =
     Item (action_label admin_action)
          (casbin_permission_encode [uid, ''admin:'' @ action_name admin_action]) None None"

definition page_item :: "string \<Rightarrow> page_schema \<Rightarrow> option_item list option \<Rightarrow> option_item" where
  "page_item uid ps ch =
     Item (ps_label ps) (casbin_permission_encode [uid, ''admin:page'']) (ps_sort ps) ch"

text \<open>
  \<^verbatim>\<open>options.sort(key=lambda p: p["sort"] or 0, reverse=True)\<close>: Python's sort is stable,
  also with \<^verbatim>\<open>reverse=True\<close>; a stable sort by the negated key is the same order.
\<close>

definition sort_weight :: "option_item \<Rightarrow> int" where
  "sort_weight p = (case opt_sort p of None \<Rightarrow> 0 | Some w \<Rightarrow> w)"

definition sort_options :: "option_item list \<Rightarrow> option_item list" where
  "sort_options options = sort_key (\<lambda>p. - sort_weight p) options"

text \<open>
  \<^verbatim>\<open>get_admin_action_options(group)\<close>: \<open>admin_option\<close> is the body of the loop for one
  admin (\<open>None\<close> for \<^verbatim>\<open>continue\<close>), \<open>collect_options\<close> the loop, and the function itself
  sorts what the loop collected. Its argument is the list of admins the group iterates over.
  This is the tree that the body builds, which is what the first call for a group returns.
  The function is memoized (\<^verbatim>\<open>lru_cache\<close>): every later call returns the same list of
  the same dict objects, in the state that earlier callers left them in. That is not a
  function of the group alone; it is modelled on a heap of dict objects in the section on
  the option tree as objects.
\<close>

fun admin_option :: "admin \<Rightarrow> option_item option"
  and collect_options :: "admin list \<Rightarrow> option_item list"
  and get_admin_action_options :: "admin list \<Rightarrow> option_item list" where
  "admin_option (PageSchemaAdmin uid ps) =
     (case ps of None \<Rightarrow> None | Some sch \<Rightarrow> Some (page_item uid sch None))"
| "admin_option (ModelAdmin uid ps acts) =
     (case ps of None \<Rightarrow> None
      | Some sch \<Rightarrow> Some (page_item uid sch (Some
          (Item label_view_list (casbin_permission_encode [uid, ''admin:list'']) None None
             # map (action_option uid) (map snd acts)))))"
| "admin_option (FormAdmin uid ps acts) =
     (case ps of None \<Rightarrow> None
      | Some sch \<Rightarrow> Some (page_item uid sch (Some
          ((if ''submit'' \<notin> set (map fst acts)
            then [Item label_submit (casbin_permission_encode [uid, ''admin:submit'']) None None]
            else [])
           @ map (action_option uid) (map snd acts)))))"
| "admin_option (BaseActionAdmin uid ps acts) =
     (case ps of None \<Rightarrow> None
      | Some sch \<Rightarrow> Some (page_item uid sch (Some (map (action_option uid) (map snd acts)))))"
| "admin_option (AdminGroup uid ps admins) =
     (case ps of None \<Rightarrow> None
      | Some sch \<Rightarrow> Some (page_item uid sch (Some (get_admin_action_options admins))))"
| "collect_options [] = []"
| "collect_options (a # admins) =
     (case admin_option a of
        None \<Rightarrow> collect_options admins
      | Some item \<Rightarrow> item # collect_options admins)"
| "get_admin_action_options admins =
     (let options = collect_options admins
      in if options \<noteq> [] then sort_options options else options)"

section \<open>The policy engine and its adapter (utils.py)\<close>

text \<open>
  The policy engine (\<^verbatim>\<open>casbin.Enforcer\<close>) is an external collaborator: the sources call it
  and do not contain it. Its state is modelled by the two rule relations the adapter
  works on, each a set of rules (a rule is the list of its columns): \<open>policy\<close> for the
  permission rules \<^verbatim>\<open>p\<close> and \<open>grouping\<close> for the role memberships \<^verbatim>\<open>g\<close>. The order in
  which the engine lists rules is not modelled, and neither are its failures.
\<close>

record enforcer =
  policy :: "string list set"
  grouping :: "string list set"

definition get_permissions_for_user :: "enforcer \<Rightarrow> string \<Rightarrow> string list set" where
  \<comment> \<open>Modelled from the spec: the engine's \<^verbatim>\<open>getPermissionsForUser\<close>, the direct permission
      tuples of a subject, which are the permission rules whose first column is the subject.\<close>
  "get_permissions_for_user e subject = {r \<in> policy e. take 1 r = [subject]}"

definition role_edges :: "enforcer \<Rightarrow> (string \<times> string) set" where
  \<comment> \<open>Modelled from the spec: a role membership \<^verbatim>\<open>(subject, role)\<close> of the engine.\<close>
  "role_edges e = {(a, b). \<exists>r \<in> grouping e. take 2 r = [a, b]}"

definition get_implicit_permissions_for_user :: "enforcer \<Rightarrow> string \<Rightarrow> string list set" where
  \<comment> \<open>Modelled from the spec: the engine's \<^verbatim>\<open>getImplicitPermissionsForUser\<close>, the permissions
      of the subject and of every role it holds transitively.\<close>
  "get_implicit_permissions_for_user e subject =
     {r \<in> policy e. \<exists>u. take 1 r = [u] \<and> (subject, u) \<in> (role_edges e)\<^sup>*}"

definition remove_policies :: "enforcer \<Rightarrow> string list set \<Rightarrow> enforcer" where
  \<comment> \<open>Modelled from the spec: the engine's \<^verbatim>\<open>removePolicies(rules)\<close>.\<close>
  "remove_policies e rules = e\<lparr>policy := policy e - rules\<rparr>"

definition add_policies :: "enforcer \<Rightarrow> string list set \<Rightarrow> enforcer" where
  \<comment> \<open>Modelled from the spec: the engine's \<^verbatim>\<open>addPolicies(rules)\<close>.\<close>
  "add_policies e rules = e\<lparr>policy := policy e \<union> rules\<rparr>"

definition delete_roles_for_user :: "enforcer \<Rightarrow> string \<Rightarrow> enforcer" where
  \<comment> \<open>Modelled from the spec: the engine's \<^verbatim>\<open>deleteRolesForUser(subject)\<close>, which deletes
      all existing role memberships of the subject.\<close>
  "delete_roles_for_user e subject =
     e\<lparr>grouping := {r \<in> grouping e. take 1 r \<noteq> [subject]}\<rparr>"

definition add_grouping_policies :: "enforcer \<Rightarrow> string list set \<Rightarrow> enforcer" where
  \<comment> \<open>Modelled from the spec: the engine's \<^verbatim>\<open>addGroupingPolicies(pairs)\<close>.\<close>
  "add_grouping_policies e rules = e\<lparr>grouping := grouping e \<union> rules\<rparr>"

text \<open>
  \<^verbatim>\<open>casbin_get_subject_permissions(enforcer, subject, implicit)\<close>: every rule without its
  subject column (\<^verbatim>\<open>permission[1:]\<close>), encoded. The source returns a list in the engine's
  order; the model returns its elements.
\<close>

definition casbin_get_subject_permissions :: "enforcer \<Rightarrow> string \<Rightarrow> bool \<Rightarrow> string set" where
  "casbin_get_subject_permissions e subject implicit =
     (let permissions = (if implicit then get_implicit_permissions_for_user e subject
                         else get_permissions_for_user e subject)
      in (\<lambda>permission. casbin_permission_encode (drop 1 permission)) ` permissions)"

text \<open>
  \<^verbatim>\<open>casbin_update_subject_roles(enforcer, subject, role_keys)\<close>. A membership tuple
  \<^verbatim>\<open>(subject, "r:" + role)\<close> is the two-column rule.
\<close>

definition casbin_update_subject_roles :: "enforcer \<Rightarrow> string \<Rightarrow> string \<Rightarrow> enforcer" where
  "casbin_update_subject_roles e subject role_keys =
     (let new_roles = (\<lambda>role. [subject, ''r:'' @ role]) `
                        {role \<in> set (str_split CHR '','' role_keys). role \<noteq> []};
          e = delete_roles_for_user e subject
      in if new_roles \<noteq> {} then add_grouping_policies e new_roles else e)"

text \<open>
  \<^verbatim>\<open>casbin_update_subject_permissions(enforcer, subject, permissions)\<close>: the engine after
  the call, and the returned list.
\<close>

definition casbin_update_subject_permissions ::
    "enforcer \<Rightarrow> string \<Rightarrow> string list \<Rightarrow> enforcer \<times> string list" where
  "casbin_update_subject_permissions e subject permissions =
     (let old_rules = get_permissions_for_user e subject;
          new_rules = (\<lambda>permission. subject # casbin_permission_decode permission) `
                        set permissions;
          remove_rules = old_rules - new_rules;
          add_rules = new_rules - old_rules;
          e = (if remove_rules \<noteq> {} then remove_policies e remove_rules else e);
          e = (if add_rules \<noteq> {} then add_policies e add_rules else e)
      in (e, permissions))"

text \<open>
  \<^verbatim>\<open>get_admin_action_options_by_subject(enforcer, subject, group)\<close>, on values: what a
  call returns when the memoized tree is still as \<^verbatim>\<open>get_admin_action_options\<close> built it,
  that is, when no earlier call has filtered it. \<open>ROOT\<close> is \<^verbatim>\<open>SystemUserEnum.ROOT\<close>, whose
  declaration is not part of the sources; \<open>admins\<close> are the admins the group iterates
  over. What a call returns in general, and what it does to the memoized tree, is
  \<open>get_admin_action_options_by_subject_h\<close> below.
\<close>

definition get_admin_action_options_by_subject ::
    "string \<Rightarrow> enforcer \<Rightarrow> string \<Rightarrow> admin list \<Rightarrow> option_item list" where
  "get_admin_action_options_by_subject ROOT e subject admins =
     (let options = get_admin_action_options admins
      in if subject \<noteq> ''u:'' @ ROOT
         then let permissions = casbin_get_subject_permissions e subject True
              in filter_options options (\<lambda>item. opt_value item \<in> permissions)
         else options)"

section \<open>Denied fields of a request (mixins/admin.py)\<close>

text \<open>
  A call of the policy engine may fail; the failure propagates through
  \<^verbatim>\<open>has_field_permission\<close> and \<^verbatim>\<open>get_deny_fields\<close>.
\<close>

datatype error = EngineError

text \<open>
  Of a request the code reads the identity that \<^verbatim>\<open>get_current_user_identity\<close> resolves
  from it, and reads and writes \<^verbatim>\<open>request.scope\<close>. The scope is modelled at the keys
  \<^verbatim>\<open>"<unique_id>_exclude_fields"\<close>, whose entries only \<^verbatim>\<open>get_deny_fields\<close> writes: each is
  a dict from an action to a set of field names.
\<close>

record request =
  user_identity :: "string option"
  scope :: "string \<rightharpoonup> (string \<rightharpoonup> string set)"

text \<open>
  Of \<^verbatim>\<open>self.site.auth\<close> the code calls \<^verbatim>\<open>enforcer.enforce\<close>, with four arguments.
\<close>

record auth =
  enforce :: "string \<Rightarrow> string \<Rightarrow> string \<Rightarrow> string \<Rightarrow> error + bool"

text \<open>
  An \<^verbatim>\<open>AuthModelAdmin\<close> instance: its \<^verbatim>\<open>unique_id\<close> and the five cached properties, each
  a dict from a field name to its label, in the dict's order.
\<close>

record auth_model_admin =
  unique_id :: string
  create_permission_fields :: "(string \<times> string) list"
  read_permission_fields :: "(string \<times> string) list"
  update_permission_fields :: "(string \<times> string) list"
  list_permission_fields :: "(string \<times> string) list"
  filter_permission_fields :: "(string \<times> string) list"

text \<open>
  \<^verbatim>\<open>has_field_permission(request, field, action)\<close>. \<open>GUEST\<close> is \<^verbatim>\<open>SystemUserEnum.GUEST\<close>,
  whose declaration is not part of the sources; \<^verbatim>\<open>identity or GUEST\<close> takes \<open>GUEST\<close> for
  \<^verbatim>\<open>None\<close> and for the empty string.
\<close>

definition has_field_permission ::
    "string \<Rightarrow> auth_model_admin \<Rightarrow> auth \<Rightarrow> request \<Rightarrow> string \<Rightarrow> string \<Rightarrow> error + bool" where
  "has_field_permission GUEST self site_auth req field action =
     (let subject = (case user_identity req of
                       None \<Rightarrow> GUEST
                     | Some u \<Rightarrow> if u = [] then GUEST else u)
      in enforce site_auth (''u:'' @ subject) (unique_id self)
           (''page:'' @ action @ '':'' @ field) (''page:'' @ action))"

text \<open>
  The set comprehension
  \<^verbatim>\<open>{field for field in check_fields if not await self.has_field_permission(...)}\<close>:
  the fields are checked in order, and the first failing check ends it.
\<close>

fun deny_of :: "(string \<Rightarrow> error + bool) \<Rightarrow> string list \<Rightarrow> error + string set" where
  "deny_of check [] = Inr {}"
| "deny_of check (field # check_fields) =
     (case check field of
        Inl err \<Rightarrow> Inl err
      | Inr permitted \<Rightarrow>
          (case deny_of check check_fields of
             Inl err \<Rightarrow> Inl err
           | Inr flds \<Rightarrow> Inr (if \<not> permitted then insert field flds else flds)))"

text \<open>
  \<^verbatim>\<open>get_deny_fields(request, action)\<close>: the request after the call and the returned set.
  \<^verbatim>\<open>request_cache\<close> is the dict stored in the scope when there is one, so the assignment
  \<^verbatim>\<open>request_cache[action] = fields\<close> writes into the scope's dict; otherwise it is a new
  dict, which the last statement stores. Either way the scope holds the updated dict.
\<close>

definition get_deny_fields ::
    "string \<Rightarrow> auth_model_admin \<Rightarrow> auth \<Rightarrow> request \<Rightarrow> string
       \<Rightarrow> error + (request \<times> string set)" where
  "get_deny_fields GUEST self site_auth req action =
     (let cache_key = unique_id self @ ''_exclude_fields'';
          request_cache = (case scope req cache_key of None \<Rightarrow> Map.empty | Some c \<Rightarrow> c)
      in if action \<in> dom request_cache then Inr (req, the (request_cache action))
         else
           let check_fields =
                 (if action = ''list'' then map fst (list_permission_fields self)
                  else if action = ''filter'' then map fst (filter_permission_fields self)
                  else if action = ''create'' then map fst (create_permission_fields self)
                  else if action = ''update'' then map fst (update_permission_fields self)
                  else if action = ''read'' then map fst (read_permission_fields self)
                  else [])
           in case deny_of (\<lambda>field. has_field_permission GUEST self site_auth req field action)
                     check_fields of
                Inl err \<Rightarrow> Inl err
              | Inr flds \<Rightarrow>
                  let request_cache = request_cache(action \<mapsto> flds)
                  in Inr (req\<lparr>scope := (scope req)(cache_key \<mapsto> request_cache)\<rparr>, flds))"

section \<open>Notions the claims are stated with\<close>

text \<open>
  The paths of an option tree: for every node, the values from a top-level option down to
  the node. A tree is determined by its paths up to labels and sort weights, so the paths
  of a filtered tree say which nodes survived.
\<close>

fun value_paths :: "option_item list \<Rightarrow> string list list" where
  "value_paths [] = []"
| "value_paths (Item l v s None # options) = [v] # value_paths options"
| "value_paths (Item l v s (Some cs) # options) =
     [v] # map ((#) v) (value_paths cs) @ value_paths options"

text \<open>The set \<^verbatim>\<open>new_roles\<close> that \<^verbatim>\<open>casbin_update_subject_roles\<close> computes.\<close>

definition new_roles_of :: "string \<Rightarrow> string \<Rightarrow> string list set" where
  "new_roles_of subject role_keys =
     (\<lambda>role. [subject, ''r:'' @ role]) `
       {role \<in> set (str_split CHR '','' role_keys). role \<noteq> []}"

text \<open>
  The request-scoped cache of an admin, \<^verbatim>\<open>request.scope.get(cache_key, {})\<close>.
\<close>

definition request_cache_of :: "auth_model_admin \<Rightarrow> request \<Rightarrow> (string \<rightharpoonup> string set)" where
  "request_cache_of self req =
     (case scope req (unique_id self @ ''_exclude_fields'') of
        None \<Rightarrow> Map.empty
      | Some c \<Rightarrow> c)"

section \<open>The option tree as objects: what filtering does to the memoized tree\<close>

text \<open>
  \<^verbatim>\<open>filter_options\<close> assigns to \<^verbatim>\<open>option["children"]\<close>, and \<^verbatim>\<open>get_admin_action_options\<close>
  is memoized (\<^verbatim>\<open>lru_cache\<close>), so every call returns the same dict objects. To say what a
  call leaves behind, the option dicts are objects in a heap: an address holds a dict, and
  a dict names its children by their addresses. The lists themselves are values: the code
  never changes a list it did not just create.
\<close>

type_synonym addr = nat

record option_dict =
  d_label :: string
  d_value :: string
  d_sort :: "int option"
  d_children :: "addr list option"

type_synonym heap = "addr \<rightharpoonup> option_dict"

text \<open>
  \<^verbatim>\<open>filter_options(options, filter_func)\<close> on the heap: the heap after the call and the
  list \<^verbatim>\<open>result\<close>. The fuel bounds the depth of the nested calls (Python's call stack);
  \<open>None\<close> is a call that runs out of it or meets an address without an object.
\<close>

fun filter_options_h ::
    "nat \<Rightarrow> heap \<Rightarrow> addr list \<Rightarrow> (option_dict \<Rightarrow> bool) \<Rightarrow> (heap \<times> addr list) option" where
  "filter_options_h fuel h [] filter_func = Some (h, [])"
| "filter_options_h fuel h (a # options) filter_func =
     (case h a of
        None \<Rightarrow> None
      | Some option \<Rightarrow>
          if \<not> filter_func option then filter_options_h fuel h options filter_func
          else (case d_children option of
                  Some (c # cs) \<Rightarrow>
                    (case fuel of
                       0 \<Rightarrow> None
                     | Suc fuel' \<Rightarrow>
                         (case filter_options_h fuel' h (c # cs) filter_func of
                            None \<Rightarrow> None
                          | Some (h1, children) \<Rightarrow>
                              (case h1 a of
                                 None \<Rightarrow> None
                               | Some option1 \<Rightarrow>
                                   (case filter_options_h fuel
                                           (h1(a \<mapsto> option1\<lparr>d_children := Some children\<rparr>))
                                           options filter_func of
                                      None \<Rightarrow> None
                                    | Some (h2, result) \<Rightarrow> Some (h2, a # result)))))
                | _ \<Rightarrow>
                    (case filter_options_h fuel h options filter_func of
                       None \<Rightarrow> None
                     | Some (h1, result) \<Rightarrow> Some (h1, a # result))))"

text \<open>
  \<^verbatim>\<open>get_admin_action_options_by_subject\<close> on the heap. \<open>cached\<close> is the list that the
  memoized \<^verbatim>\<open>get_admin_action_options(group)\<close> returns, on every call the same.
\<close>

definition get_admin_action_options_by_subject_h ::
    "nat \<Rightarrow> string \<Rightarrow> enforcer \<Rightarrow> string \<Rightarrow> heap \<Rightarrow> addr list \<Rightarrow> (heap \<times> addr list) option" where
  "get_admin_action_options_by_subject_h fuel ROOT e subject h cached =
     (let options = cached
      in if subject \<noteq> ''u:'' @ ROOT
         then let permissions = casbin_get_subject_permissions e subject True
              in filter_options_h fuel h options (\<lambda>item. d_value item \<in> permissions)
         else Some (h, options))"

text \<open>
  \<open>tree_at h as ts F\<close>: the heap holds the option trees \<open>ts\<close> at the addresses \<open>as\<close>,
  every node in a dict object of its own; \<open>F\<close> are the addresses of these objects.
\<close>

inductive tree_at :: "heap \<Rightarrow> addr list \<Rightarrow> option_item list \<Rightarrow> addr set \<Rightarrow> bool" where
  tree_at_Nil: "tree_at h [] [] {}"
| tree_at_Leaf:
    "h a = Some \<lparr>d_label = l, d_value = v, d_sort = s, d_children = None\<rparr> \<Longrightarrow>
     tree_at h as ts F \<Longrightarrow> a \<notin> F \<Longrightarrow>
     tree_at h (a # as) (Item l v s None # ts) (insert a F)"
| tree_at_Node:
    "h a = Some \<lparr>d_label = l, d_value = v, d_sort = s, d_children = Some cs\<rparr> \<Longrightarrow>
     tree_at h cs ch Fc \<Longrightarrow> tree_at h as ts F \<Longrightarrow>
     a \<notin> Fc \<Longrightarrow> a \<notin> F \<Longrightarrow> Fc \<inter> F = {} \<Longrightarrow>
     tree_at h (a # as) (Item l v s (Some ch) # ts) (insert a (Fc \<union> F))"

text \<open>The depth of the nested calls that filtering a tree can make.\<close>

fun call_depth :: "option_item list \<Rightarrow> nat" where
  "call_depth [] = 0"
| "call_depth (Item l v s None # options) = call_depth options"
| "call_depth (Item l v s (Some []) # options) = call_depth options"
| "call_depth (Item l v s (Some (c # cs)) # options) =
     max (Suc (call_depth (c # cs))) (call_depth options)"

text \<open>
  The tree that the list given to \<^verbatim>\<open>filter_options\<close> holds after the call: the list keeps
  all its options; an option that passed the filter and had children has the filtered
  children; an option that failed is as it was.
\<close>

fun options_after_filter :: "option_item list \<Rightarrow> (option_item \<Rightarrow> bool) \<Rightarrow> option_item list" where
  "options_after_filter [] filter_func = []"
| "options_after_filter (Item l v s None # options) filter_func =
     Item l v s None # options_after_filter options filter_func"
| "options_after_filter (Item l v s (Some []) # options) filter_func =
     Item l v s (Some []) # options_after_filter options filter_func"
| "options_after_filter (Item l v s (Some (c # cs)) # options) filter_func =
     (if filter_func (Item l v s (Some (c # cs)))
      then Item l v s (Some (filter_options (c # cs) filter_func))
      else Item l v s (Some (c # cs)))
     # options_after_filter options filter_func"

text \<open>
  A small site for the concrete instance of the last claim: one model admin with a delete
  action; an engine in which \<^verbatim>\<open>u:bob\<close> holds the page and its list; and the heap with the
  memoized option tree of the site, the page at address 0, its two entries at 1 and 2.
\<close>

definition example_admins :: "admin list" where
  "example_admins =
     [ModelAdmin ''users'' (Some (PageSchema ''Users'' None))
        [(''delete'', AdminAction ''delete'' ''Delete'')]]"

definition example_enforcer :: enforcer where
  "example_enforcer =
     \<lparr>policy = {[''u:bob'', ''users'', ''admin:page'', [], [], []],
                 [''u:bob'', ''users'', ''admin:list'', [], [], []],
                 [''u:eve'', ''users'', ''admin:delete'', [], [], []]},
      grouping = {}\<rparr>"

definition example_heap :: heap where
  "example_heap =
     [0 \<mapsto> \<lparr>d_label = ''Users'', d_value = ''users#admin:page###'', d_sort = None,
             d_children = Some [1, 2]\<rparr>,
      1 \<mapsto> \<lparr>d_label = label_view_list, d_value = ''users#admin:list###'', d_sort = None,
             d_children = None\<rparr>,
      2 \<mapsto> \<lparr>d_label = ''Delete'', d_value = ''users#admin:delete###'', d_sort = None,
             d_children = None\<rparr>]"

text \<open>
  The same site with a second subject: \<^verbatim>\<open>u:eve\<close> holds the page and its delete action.
\<close>

definition example_enforcer_two :: enforcer where
  "example_enforcer_two =
     \<lparr>policy = {[''u:bob'', ''users'', ''admin:page'', [], [], []],
                 [''u:bob'', ''users'', ''admin:list'', [], [], []],
                 [''u:eve'', ''users'', ''admin:page'', [], [], []],
                 [''u:eve'', ''users'', ''admin:delete'', [], [], []]},
      grouping = {}\<rparr>"

section \<open>Facts about splitting and joining\<close>

lemma str_split_not_Nil: "str_split sep s \<noteq> []"
  by (induction s) (auto split: list.splits)

lemma str_split_no_sep: "sep \<notin> set s \<Longrightarrow> str_split sep s = [s]"
  by (induction s) auto

lemma str_split_append_sep:
  "sep \<notin> set v \<Longrightarrow> str_split sep (v @ sep # s) = v # str_split sep s"
  by (induction v) auto

lemma str_split_join:
  "vs \<noteq> [] \<Longrightarrow> (\<And>v. v \<in> set vs \<Longrightarrow> sep \<notin> set v) \<Longrightarrow>
   str_split sep (str_join [sep] vs) = vs"
proof (induction "[sep]" vs rule: str_join.induct)
  case 1
  then show ?case by simp
next
  case (2 v)
  then show ?case by (simp add: str_split_no_sep)
next
  case (3 v w vs)
  then show ?case by (simp add: str_split_append_sep)
qed

lemma length_str_split: "length (str_split sep s) = Suc (count_list s sep)"
  by (induction s) (auto split: list.splits simp: str_split_not_Nil)

section \<open>Permission encoding: the claims\<close>

text \<open>
  Claim C3. For any five strings none of which contains the character \<^verbatim>\<open>#\<close>, decoding
  their encoding gives the five strings back.
\<close>

theorem casbin_permission_decode_encode:
  assumes "CHR ''#'' \<notin> set a" and "CHR ''#'' \<notin> set b" and "CHR ''#'' \<notin> set c"
    and "CHR ''#'' \<notin> set d" and "CHR ''#'' \<notin> set e"
  shows "casbin_permission_decode (casbin_permission_encode [a, b, c, d, e]) = [a, b, c, d, e]"
proof -
  have "str_split CHR ''#'' (str_join ''#'' [a, b, c, d, e]) = [a, b, c, d, e]"
    using assms by (intro str_split_join) auto
  then show ?thesis
    by (simp add: casbin_permission_decode_def casbin_permission_encode_def)
qed

theorem casbin_permission_decode_encode_witness:
  "casbin_permission_decode
     (casbin_permission_encode [''u:1'', ''site'', ''page:list:name'', ''page:list'', ''allow''])
   = [''u:1'', ''site'', ''page:list:name'', ''page:list'', ''allow'']"
  using casbin_permission_decode_encode
    [of "''u:1''" "''site''" "''page:list:name''" "''page:list''" "''allow''"]
  by simp

text \<open>
  Claim C8, as the code has it. Decoding never fails. Its result is the list of the pieces
  between the \<^verbatim>\<open>#\<close> characters, followed by as many empty strings as are missing to five;
  so it has five segments when the input holds at most four \<^verbatim>\<open>#\<close>, and one segment more
  than the input holds \<^verbatim>\<open>#\<close> otherwise: nothing is cut off.
\<close>

theorem casbin_permission_decode_segments:
  "casbin_permission_decode permission =
     str_split CHR ''#'' permission
       @ replicate (5 - length (str_split CHR ''#'' permission)) []
   \<and> length (casbin_permission_decode permission)
       = max 5 (Suc (count_list permission CHR ''#''))"
  by (simp add: casbin_permission_decode_def Let_def length_str_split)

text \<open>
  Claim C8 as stated fails: a string with five \<^verbatim>\<open>#\<close> decodes to six segments.
\<close>

theorem casbin_permission_decode_six_segments:
  "casbin_permission_decode ''a#b#c#d#e#f'' = [''a'', ''b'', ''c'', ''d'', ''e'', ''f'']
   \<and> length (casbin_permission_decode ''a#b#c#d#e#f'') \<noteq> 5"
  by (simp add: casbin_permission_decode_def)

section \<open>Action normalization: the claim\<close>

text \<open>
  Claim C4. \<open>encode_admin_action\<close> is defined on every string and has three shapes:
  \<^verbatim>\<open>page\<close> gives \<^verbatim>\<open>admin:page\<close>; each of the seven built-in verbs gives \<^verbatim>\<open>admin:page:\<close>
  followed by the verb; every other string gives \<^verbatim>\<open>admin:page:action:\<close> followed by it.
\<close>

theorem encode_admin_action_shapes:
  "encode_admin_action action =
     (if action = ''page'' then ''admin:page''
      else if action \<in> {''list'', ''update'', ''bulk_update'', ''create'', ''bulk_create'',
                         ''read'', ''submit''}
      then ''admin:page:'' @ action
      else ''admin:page:action:'' @ action)"
  by (simp add: encode_admin_action_def)

section \<open>Filtering the option tree: the claim\<close>

lemma filter_paths_allowed:
  "v \<in> A \<Longrightarrow>
   filter (\<lambda>p. set p \<subseteq> A) (map ((#) v) ps) = map ((#) v) (filter (\<lambda>p. set p \<subseteq> A) ps)"
  by (induction ps) auto

lemma filter_paths_denied: "v \<notin> A \<Longrightarrow> filter (\<lambda>p. set p \<subseteq> A) (map ((#) v) ps) = []"
  by (induction ps) auto

text \<open>
  Claim C1, as the code has it. Filtering with the membership predicate keeps a top-level
  option if and only if its own value is allowed, whatever its descendants are; the children
  of a kept option are filtered the same way. So a node at any depth survives if and only
  if its own value and the values of all its ancestors are allowed: the paths of the
  filtered tree are the paths of the tree that lie within the allowed set.
\<close>

theorem filter_options_keeps_allowed_paths:
  "map opt_value (filter_options options (\<lambda>item. opt_value item \<in> allowed))
     = filter (\<lambda>v. v \<in> allowed) (map opt_value options)
   \<and> value_paths (filter_options options (\<lambda>item. opt_value item \<in> allowed))
     = filter (\<lambda>p. set p \<subseteq> allowed) (value_paths options)"
proof
  show "map opt_value (filter_options options (\<lambda>item. opt_value item \<in> allowed))
     = filter (\<lambda>v. v \<in> allowed) (map opt_value options)"
    by (induction options "\<lambda>item. opt_value item \<in> allowed" rule: filter_options.induct) auto
  show "value_paths (filter_options options (\<lambda>item. opt_value item \<in> allowed))
     = filter (\<lambda>p. set p \<subseteq> allowed) (value_paths options)"
    by (induction options "\<lambda>item. opt_value item \<in> allowed" rule: filter_options.induct)
       (auto simp: filter_paths_allowed filter_paths_denied)
qed

text \<open>
  Claim C1 as stated fails: the leaf and its parent are allowed and the grandparent is
  not; the grandparent is dropped, and the path down to the leaf with it.
\<close>

theorem filter_options_drops_unauthorized_ancestor:
  "''users:list'' \<in> {''users'', ''users:list''} \<and> ''site'' \<notin> {''users'', ''users:list''}
   \<and> filter_options
        [Item ''Site'' ''site'' None (Some
           [Item ''Users'' ''users'' None (Some
              [Item ''List'' ''users:list'' None None])])]
        (\<lambda>item. opt_value item \<in> {''users'', ''users:list''}) = []"
  by simp

section \<open>The policy engine adapter: the claims\<close>

lemma update_roles_eq:
  "casbin_update_subject_roles e subject role_keys
     = e\<lparr>grouping := {r \<in> grouping e. take 1 r \<noteq> [subject]}
                       \<union> new_roles_of subject role_keys\<rparr>"
proof -
  have "casbin_update_subject_roles e subject role_keys
        = (if new_roles_of subject role_keys \<noteq> {}
           then add_grouping_policies (delete_roles_for_user e subject)
                  (new_roles_of subject role_keys)
           else delete_roles_for_user e subject)"
    by (simp only: casbin_update_subject_roles_def new_roles_of_def Let_def)
  also have "\<dots> = e\<lparr>grouping := {r \<in> grouping e. take 1 r \<noteq> [subject]}
                       \<union> new_roles_of subject role_keys\<rparr>"
    by (cases "new_roles_of subject role_keys = {}")
       (simp_all add: delete_roles_for_user_def add_grouping_policies_def)
  finally show ?thesis .
qed

lemma new_roles_of_subject: "r \<in> new_roles_of subject role_keys \<Longrightarrow> take 1 r = [subject]"
  by (auto simp: new_roles_of_def)

text \<open>
  Claim C6. After \<open>casbin_update_subject_roles\<close> the role memberships are those of the
  other subjects, unchanged, and one membership \<^verbatim>\<open>(subject, "r:" + role)\<close> for each
  non-empty segment of \<^verbatim>\<open>role_keys\<close>; the permission rules are untouched. With \<^verbatim>\<open>""\<close> the
  subject has no membership, with \<^verbatim>\<open>"a,b"\<close> exactly \<^verbatim>\<open>r:a\<close> and \<^verbatim>\<open>r:b\<close>, and a second call
  with the same \<^verbatim>\<open>role_keys\<close> changes nothing.
\<close>

theorem casbin_update_subject_roles_replaces:
  "grouping (casbin_update_subject_roles e subject role_keys)
     = {r \<in> grouping e. take 1 r \<noteq> [subject]}
       \<union> {[subject, ''r:'' @ role] | role.
            role \<in> set (str_split CHR '','' role_keys) \<and> role \<noteq> []}
   \<and> policy (casbin_update_subject_roles e subject role_keys) = policy e
   \<and> {r \<in> grouping (casbin_update_subject_roles e subject []). take 1 r = [subject]} = {}
   \<and> {r \<in> grouping (casbin_update_subject_roles e subject ''a,b''). take 1 r = [subject]}
       = {[subject, ''r:a''], [subject, ''r:b'']}
   \<and> casbin_update_subject_roles (casbin_update_subject_roles e subject role_keys)
         subject role_keys
       = casbin_update_subject_roles e subject role_keys"
proof (intro conjI)
  show "grouping (casbin_update_subject_roles e subject role_keys)
     = {r \<in> grouping e. take 1 r \<noteq> [subject]}
       \<union> {[subject, ''r:'' @ role] | role.
            role \<in> set (str_split CHR '','' role_keys) \<and> role \<noteq> []}"
    unfolding update_roles_eq by (auto simp: new_roles_of_def)
  show "policy (casbin_update_subject_roles e subject role_keys) = policy e"
    unfolding update_roles_eq by simp
  show "{r \<in> grouping (casbin_update_subject_roles e subject []). take 1 r = [subject]} = {}"
    unfolding update_roles_eq by (auto simp: new_roles_of_def)
  show "{r \<in> grouping (casbin_update_subject_roles e subject ''a,b''). take 1 r = [subject]}
       = {[subject, ''r:a''], [subject, ''r:b'']}"
    unfolding update_roles_eq by (auto simp: new_roles_of_def)
  have "{r \<in> {r \<in> grouping e. take 1 r \<noteq> [subject]} \<union> new_roles_of subject role_keys.
          take 1 r \<noteq> [subject]} \<union> new_roles_of subject role_keys
        = {r \<in> grouping e. take 1 r \<noteq> [subject]} \<union> new_roles_of subject role_keys"
    using new_roles_of_subject by blast
  then show "casbin_update_subject_roles (casbin_update_subject_roles e subject role_keys)
         subject role_keys
       = casbin_update_subject_roles e subject role_keys"
    unfolding update_roles_eq by simp
qed

lemma str_join_Cons_head: "str_join sep ((c # v) # vs) = c # str_join sep (v # vs)"
  by (cases vs) simp_all

lemma str_join_split: "str_join [sep] (str_split sep s) = s"
proof (induction s)
  case Nil
  then show ?case by simp
next
  case (Cons c s)
  then show ?case
    by (cases "str_split sep s") (auto simp: str_join_Cons_head)
qed

lemma encode_decode_id:
  "4 \<le> count_list p CHR ''#'' \<Longrightarrow> casbin_permission_encode (casbin_permission_decode p) = p"
  by (simp add: casbin_permission_encode_def casbin_permission_decode_def Let_def
        length_str_split str_join_split)

lemma update_permissions_policy:
  "policy (fst (casbin_update_subject_permissions e subject permissions))
     = (policy e - (get_permissions_for_user e subject
                     - (\<lambda>p. subject # casbin_permission_decode p) ` set permissions))
       \<union> ((\<lambda>p. subject # casbin_permission_decode p) ` set permissions
            - get_permissions_for_user e subject)"
  by (auto simp: casbin_update_subject_permissions_def Let_def remove_policies_def
        add_policies_def)

lemma update_permissions_direct:
  "get_permissions_for_user (fst (casbin_update_subject_permissions e subject permissions))
     subject
   = (\<lambda>p. subject # casbin_permission_decode p) ` set permissions"
  unfolding get_permissions_for_user_def [of "fst _"] update_permissions_policy
  by (auto simp: get_permissions_for_user_def)

text \<open>
  Claim C5. After \<open>casbin_update_subject_permissions\<close> the direct permissions of the
  subject in the engine are exactly the decoded tuples of the given permission strings
  (each with the subject in front); the rules of the other subjects are unchanged; reading
  the subject's permissions back gives exactly the encodings of those tuples, which are the
  given strings themselves when each has its five segments; and the call returns the given
  list.
\<close>

theorem casbin_update_subject_permissions_replaces:
  "snd (casbin_update_subject_permissions e subject permissions) = permissions
   \<and> get_permissions_for_user (fst (casbin_update_subject_permissions e subject permissions))
         subject
       = (\<lambda>p. subject # casbin_permission_decode p) ` set permissions
   \<and> {r \<in> policy (fst (casbin_update_subject_permissions e subject permissions)).
          take 1 r \<noteq> [subject]}
       = {r \<in> policy e. take 1 r \<noteq> [subject]}
   \<and> casbin_get_subject_permissions
         (fst (casbin_update_subject_permissions e subject permissions)) subject False
       = (\<lambda>p. casbin_permission_encode (casbin_permission_decode p)) ` set permissions
   \<and> ((\<forall>p \<in> set permissions. 4 \<le> count_list p CHR ''#'') \<longrightarrow>
        casbin_get_subject_permissions
         (fst (casbin_update_subject_permissions e subject permissions)) subject False
        = set permissions)"
proof (intro conjI impI)
  show "snd (casbin_update_subject_permissions e subject permissions) = permissions"
    by (simp add: casbin_update_subject_permissions_def Let_def)
  show "get_permissions_for_user (fst (casbin_update_subject_permissions e subject permissions))
         subject
       = (\<lambda>p. subject # casbin_permission_decode p) ` set permissions"
    by (rule update_permissions_direct)
  show "{r \<in> policy (fst (casbin_update_subject_permissions e subject permissions)).
          take 1 r \<noteq> [subject]}
       = {r \<in> policy e. take 1 r \<noteq> [subject]}"
    unfolding update_permissions_policy by (auto simp: get_permissions_for_user_def)
  show *: "casbin_get_subject_permissions
         (fst (casbin_update_subject_permissions e subject permissions)) subject False
       = (\<lambda>p. casbin_permission_encode (casbin_permission_decode p)) ` set permissions"
    by (simp add: casbin_get_subject_permissions_def update_permissions_direct image_image)
  show "casbin_get_subject_permissions
         (fst (casbin_update_subject_permissions e subject permissions)) subject False
        = set permissions"
    if "\<forall>p \<in> set permissions. 4 \<le> count_list p CHR ''#''"
    unfolding * using that by (auto simp: encode_decode_id image_iff)
qed

text \<open>
  The claim at a concrete engine: the subject held one permission, another subject one;
  two permissions are given, one of them the old one.
\<close>

theorem casbin_update_subject_permissions_replaces_witness:
  "4 \<le> count_list ''site#page:list###'' CHR ''#''
   \<and> 4 \<le> count_list ''site#page:read###'' CHR ''#''
   \<and> casbin_get_subject_permissions
        (fst (casbin_update_subject_permissions
               \<lparr>policy = {[''u:1'', ''site'', ''page:list'', [], [], []],
                           [''u:2'', ''site'', ''page:update'', [], [], []]},
                grouping = {}\<rparr>
               ''u:1'' [''site#page:list###'', ''site#page:read###'']))
        ''u:1'' False
      = {''site#page:list###'', ''site#page:read###''}"
proof -
  have h: "\<forall>p \<in> set [''site#page:list###'', ''site#page:read###'']. 4 \<le> count_list p CHR ''#''"
    by simp
  have "casbin_get_subject_permissions
        (fst (casbin_update_subject_permissions
               \<lparr>policy = {[''u:1'', ''site'', ''page:list'', [], [], []],
                           [''u:2'', ''site'', ''page:update'', [], [], []]},
                grouping = {}\<rparr>
               ''u:1'' [''site#page:list###'', ''site#page:read###'']))
        ''u:1'' False
      = set [''site#page:list###'', ''site#page:read###'']"
    using casbin_update_subject_permissions_replaces
      [of "\<lparr>policy = {[''u:1'', ''site'', ''page:list'', [], [], []],
                       [''u:2'', ''site'', ''page:update'', [], [], []]},
            grouping = {}\<rparr>"
          "''u:1''" "[''site#page:list###'', ''site#page:read###'']"] h
    by blast
  then show ?thesis by simp
qed

section \<open>Denied fields of a request: the claims\<close>

lemma get_deny_fields_hit:
  "request_cache_of self req action = Some flds \<Longrightarrow>
   get_deny_fields GUEST self site_auth req action = Inr (req, flds)"
  unfolding get_deny_fields_def request_cache_of_def Let_def
  by (simp add: domI)

lemma get_deny_fields_miss:
  assumes "request_cache_of self req action = None"
  shows "\<exists>check_fields. get_deny_fields GUEST self site_auth req action =
     (case deny_of (\<lambda>field. has_field_permission GUEST self site_auth req field action)
             check_fields of
        Inl err \<Rightarrow> Inl err
      | Inr flds \<Rightarrow>
          Inr (req\<lparr>scope := (scope req)(unique_id self @ ''_exclude_fields''
                   \<mapsto> (request_cache_of self req)(action \<mapsto> flds))\<rparr>, flds))"
proof -
  have "action \<notin> dom (request_cache_of self req)"
    using assms by (simp add: domIff)
  then show ?thesis
    unfolding get_deny_fields_def request_cache_of_def Let_def
    by (simp only: if_False) blast
qed

lemma get_deny_fields_stores:
  assumes "get_deny_fields GUEST self site_auth req action = Inr (req1, flds)"
  shows "request_cache_of self req1 action = Some flds"
proof (cases "request_cache_of self req action")
  case None
  from get_deny_fields_miss [OF None, of GUEST site_auth] obtain check_fields where
    "get_deny_fields GUEST self site_auth req action =
     (case deny_of (\<lambda>field. has_field_permission GUEST self site_auth req field action)
             check_fields of
        Inl err \<Rightarrow> Inl err
      | Inr flds \<Rightarrow>
          Inr (req\<lparr>scope := (scope req)(unique_id self @ ''_exclude_fields''
                   \<mapsto> (request_cache_of self req)(action \<mapsto> flds))\<rparr>, flds))"
    by blast
  with assms show ?thesis
    by (auto simp: request_cache_of_def split: sum.splits)
next
  case (Some c)
  from get_deny_fields_hit [OF Some, of GUEST site_auth] assms Some show ?thesis
    by simp
qed

text \<open>
  Claim C2. When a call of \<open>get_deny_fields\<close> has returned a set, a second call on the
  same instance with the same action, on the request as the first call left it, returns the
  same set and leaves the request as it is, whatever the policy engine answers by then
  (\<open>auth2\<close> is any engine, also one that fails on every call, so the engine is not asked):
  the set is the entry of the action in the request-scoped cache. The set may be empty.
\<close>

theorem get_deny_fields_memoized:
  assumes "get_deny_fields GUEST self auth1 req action = Inr (req1, flds)"
  shows "get_deny_fields GUEST self auth2 req1 action = Inr (req1, flds)
     \<and> request_cache_of self req1 action = Some flds"
  using get_deny_fields_hit [OF get_deny_fields_stores [OF assms]]
    get_deny_fields_stores [OF assms] by simp

text \<open>
  The claim at a concrete request: the engine permits every field of the list action, so
  the first call stores and returns the empty set; the engine of the second call fails on
  every call, and the second call returns the empty set from the cache.
\<close>

theorem get_deny_fields_memoized_witness:
  "get_deny_fields ''guest''
     \<lparr>unique_id = ''user'', create_permission_fields = [], read_permission_fields = [],
      update_permission_fields = [],
      list_permission_fields = [(''name'', ''Name''), (''salary'', ''Salary'')],
      filter_permission_fields = []\<rparr>
     \<lparr>enforce = (\<lambda>sub obj fld act. Inr True)\<rparr>
     \<lparr>user_identity = None, scope = Map.empty\<rparr> ''list''
   = Inr (\<lparr>user_identity = None,
           scope = [''user_exclude_fields'' \<mapsto> [''list'' \<mapsto> {}]]\<rparr>, {})
   \<and> get_deny_fields ''guest''
     \<lparr>unique_id = ''user'', create_permission_fields = [], read_permission_fields = [],
      update_permission_fields = [],
      list_permission_fields = [(''name'', ''Name''), (''salary'', ''Salary'')],
      filter_permission_fields = []\<rparr>
     \<lparr>enforce = (\<lambda>sub obj fld act. Inl EngineError)\<rparr>
     \<lparr>user_identity = None,
      scope = [''user_exclude_fields'' \<mapsto> [''list'' \<mapsto> {}]]\<rparr> ''list''
   = Inr (\<lparr>user_identity = None,
           scope = [''user_exclude_fields'' \<mapsto> [''list'' \<mapsto> {}]]\<rparr>, {})"
proof -
  have first: "get_deny_fields ''guest''
     \<lparr>unique_id = ''user'', create_permission_fields = [], read_permission_fields = [],
      update_permission_fields = [],
      list_permission_fields = [(''name'', ''Name''), (''salary'', ''Salary'')],
      filter_permission_fields = []\<rparr>
     \<lparr>enforce = (\<lambda>sub obj fld act. Inr True)\<rparr>
     \<lparr>user_identity = None, scope = Map.empty\<rparr> ''list''
   = Inr (\<lparr>user_identity = None,
           scope = [''user_exclude_fields'' \<mapsto> [''list'' \<mapsto> {}]]\<rparr>, {})"
    by (simp add: get_deny_fields_def has_field_permission_def)
  from get_deny_fields_memoized [OF first, of "\<lparr>enforce = (\<lambda>sub obj fld act. Inl EngineError)\<rparr>"]
    first show ?thesis by blast
qed

text \<open>
  Claim C9. For an action other than the five field-checked ones that has no entry in the
  request-scoped cache, \<open>get_deny_fields\<close> returns the empty set, whatever the policy
  engine would answer (also an engine that fails on every call): no field is checked. The
  empty set is stored in the cache under the action.
\<close>

theorem get_deny_fields_unrecognized_action:
  assumes "action \<notin> {''list'', ''filter'', ''create'', ''update'', ''read''}"
    and "action \<notin> dom (request_cache_of self req)"
  shows "get_deny_fields GUEST self site_auth req action
         = Inr (req\<lparr>scope := (scope req)(unique_id self @ ''_exclude_fields''
                        \<mapsto> (request_cache_of self req)(action \<mapsto> {}))\<rparr>, {})"
  using assms unfolding get_deny_fields_def request_cache_of_def Let_def
  by simp

theorem get_deny_fields_unrecognized_action_witness:
  "''export'' \<notin> {''list'', ''filter'', ''create'', ''update'', ''read''}
   \<and> ''export'' \<notin> dom (request_cache_of
        \<lparr>unique_id = ''user'', create_permission_fields = [], read_permission_fields = [],
         update_permission_fields = [],
         list_permission_fields = [(''name'', ''Name'')],
         filter_permission_fields = []\<rparr>
        \<lparr>user_identity = Some ''bob'',
         scope = [''user_exclude_fields'' \<mapsto> [''list'' \<mapsto> {''name''}]]\<rparr>)
   \<and> get_deny_fields ''guest''
        \<lparr>unique_id = ''user'', create_permission_fields = [], read_permission_fields = [],
         update_permission_fields = [],
         list_permission_fields = [(''name'', ''Name'')],
         filter_permission_fields = []\<rparr>
        \<lparr>enforce = (\<lambda>sub obj fld act. Inl EngineError)\<rparr>
        \<lparr>user_identity = Some ''bob'',
         scope = [''user_exclude_fields'' \<mapsto> [''list'' \<mapsto> {''name''}]]\<rparr> ''export''
      = Inr (\<lparr>user_identity = Some ''bob'',
              scope = [''user_exclude_fields''
                         \<mapsto> [''list'' \<mapsto> {''name''}, ''export'' \<mapsto> {}]]\<rparr>, {})"
proof -
  have h1: "''export'' \<notin> {''list'', ''filter'', ''create'', ''update'', ''read''}"
    by simp
  have h2: "''export'' \<notin> dom (request_cache_of
        \<lparr>unique_id = ''user'', create_permission_fields = [], read_permission_fields = [],
         update_permission_fields = [],
         list_permission_fields = [(''name'', ''Name'')],
         filter_permission_fields = []\<rparr>
        \<lparr>user_identity = Some ''bob'',
         scope = [''user_exclude_fields'' \<mapsto> [''list'' \<mapsto> {''name''}]]\<rparr>)"
    by (simp add: request_cache_of_def)
  from get_deny_fields_unrecognized_action [OF h1 h2, of "''guest''"
      "\<lparr>enforce = (\<lambda>sub obj fld act. Inl EngineError)\<rparr>"] h1 h2
  show ?thesis by (simp add: request_cache_of_def)
qed

section \<open>The engine and the option tree of a small site\<close>

lemma role_edges_empty: "grouping e = {} \<Longrightarrow> role_edges e = {}"
  by (simp add: role_edges_def)

lemma implicit_no_roles:
  "grouping e = {} \<Longrightarrow>
   get_implicit_permissions_for_user e subject = get_permissions_for_user e subject"
  unfolding get_implicit_permissions_for_user_def get_permissions_for_user_def
  by (simp add: role_edges_empty)

lemma bob_direct_permissions: "get_permissions_for_user
      \<lparr>policy = {[''u:bob'', ''users'', ''admin:page'', [], [], []],
                  [''u:bob'', ''users'', ''admin:list'', [], [], []],
                  [''u:eve'', ''users'', ''admin:delete'', [], [], []]},
       grouping = {}\<rparr> ''u:bob''
    = {[''u:bob'', ''users'', ''admin:page'', [], [], []],
       [''u:bob'', ''users'', ''admin:list'', [], [], []]}"
  unfolding get_permissions_for_user_def by auto

lemma users_site_options: "get_admin_action_options
      [ModelAdmin ''users'' (Some (PageSchema ''Users'' None))
         [(''delete'', AdminAction ''delete'' ''Delete'')]]
   = [Item ''Users'' ''users#admin:page###'' None (Some
        [Item label_view_list ''users#admin:list###'' None None,
         Item ''Delete'' ''users#admin:delete###'' None None])]"
  by (simp add: page_item_def action_option_def casbin_permission_encode_def sort_options_def
        eval_nat_numeral)

lemma bob_implicit_permissions: "casbin_get_subject_permissions
      \<lparr>policy = {[''u:bob'', ''users'', ''admin:page'', [], [], []],
                  [''u:bob'', ''users'', ''admin:list'', [], [], []],
                  [''u:eve'', ''users'', ''admin:delete'', [], [], []]},
       grouping = {}\<rparr> ''u:bob'' True
    = {''users#admin:page###'', ''users#admin:list###''}"
  by (simp add: casbin_get_subject_permissions_def implicit_no_roles bob_direct_permissions
        casbin_permission_encode_def)

section \<open>Filtering the memoized tree: the claim\<close>

inductive_cases tree_at_NilE: "tree_at h as [] F"
inductive_cases tree_at_LeafE: "tree_at h as (Item l v s None # ts) F"
inductive_cases tree_at_NodeE: "tree_at h as (Item l v s (Some ch) # ts) F"

lemma tree_at_frame:
  "tree_at h as ts F \<Longrightarrow> (\<And>x. x \<in> F \<Longrightarrow> h' x = h x) \<Longrightarrow> tree_at h' as ts F"
proof (induction rule: tree_at.induct)
  case (tree_at_Nil h)
  then show ?case by (simp add: tree_at.tree_at_Nil)
next
  case (tree_at_Leaf h a l v s as ts F)
  then show ?case by (auto intro!: tree_at.tree_at_Leaf)
next
  case (tree_at_Node h a l v s cs ch Fc as ts F)
  then show ?case by (auto intro!: tree_at.tree_at_Node)
qed

lemma tree_at_addrs: "tree_at h as ts F \<Longrightarrow> set as \<subseteq> F"
  by (induction rule: tree_at.induct) auto


lemma filter_options_h_tree:
  assumes "tree_at h as ts F" and "call_depth ts \<le> fuel"
  shows "\<exists>h' rs F1 F2.
           filter_options_h fuel h as (\<lambda>d. P (d_value d)) = Some (h', rs)
           \<and> tree_at h' rs (filter_options ts (\<lambda>t. P (opt_value t))) F1 \<and> F1 \<subseteq> F
           \<and> tree_at h' as (options_after_filter ts (\<lambda>t. P (opt_value t))) F2 \<and> F2 \<subseteq> F
           \<and> (\<forall>x. x \<notin> F \<longrightarrow> h' x = h x) \<and> set rs \<subseteq> set as"
  using assms
proof (induction "size_list size ts" arbitrary: ts h as F fuel rule: less_induct)
  case less
  let ?f = "\<lambda>d. P (d_value d)"
  let ?pf = "\<lambda>t. P (opt_value t)"
  note IH = less.hyps
  note t = less.prems(1) and d = less.prems(2)
  show ?case
  proof (cases ts rule: call_depth.cases)
    case 1
    with t have "as = []" "F = {}" by (auto elim: tree_at_NilE)
    with 1 show ?thesis by (auto intro: tree_at_Nil)
  next
    case (2 l v s options)
    from t 2 obtain a as' F' where as: "as = a # as'" and F: "F = insert a F'"
      and ha: "h a = Some \<lparr>d_label = l, d_value = v, d_sort = s, d_children = None\<rparr>"
      and t': "tree_at h as' options F'" and na: "a \<notin> F'"
      by (auto elim: tree_at_LeafE)
    from d 2 have d': "call_depth options \<le> fuel" by simp
    from IH [OF _ t' d'] 2 obtain h' rs F1 F2 where
      run: "filter_options_h fuel h as' ?f = Some (h', rs)"
      and r1: "tree_at h' rs (filter_options options ?pf) F1" and s1: "F1 \<subseteq> F'"
      and r2: "tree_at h' as' (options_after_filter options ?pf) F2" and s2: "F2 \<subseteq> F'"
      and fr: "\<forall>x. x \<notin> F' \<longrightarrow> h' x = h x" and sub: "set rs \<subseteq> set as'"
      by auto
    from fr na ha have ha': "h' a = Some \<lparr>d_label = l, d_value = v, d_sort = s, d_children = None\<rparr>"
      by simp
    have c2: "tree_at h' as (options_after_filter ts ?pf) (insert a F2)"
      unfolding as 2 using ha' r2 na s2 by (auto intro!: tree_at_Leaf)
    show ?thesis
    proof (cases "P v")
      case True
      have "filter_options_h fuel h as ?f = Some (h', a # rs)"
        unfolding as using ha True run by simp
      moreover have "tree_at h' (a # rs) (filter_options ts ?pf) (insert a F1)"
        unfolding 2 using True ha' r1 na s1 by (auto intro!: tree_at_Leaf)
      ultimately show ?thesis
        using c2 s1 s2 fr sub unfolding F as by (intro exI conjI) auto
    next
      case False
      have "filter_options_h fuel h as ?f = Some (h', rs)"
        unfolding as using ha False run by simp
      moreover have "tree_at h' rs (filter_options ts ?pf) F1"
        unfolding 2 using False r1 by simp
      ultimately show ?thesis
        using c2 s1 s2 fr sub unfolding F as by (intro exI conjI) auto
    qed
  next
    case (3 l v s options)
    from t 3 obtain a as' F' where as: "as = a # as'" and F: "F = insert a F'"
      and ha: "h a = Some \<lparr>d_label = l, d_value = v, d_sort = s, d_children = Some []\<rparr>"
      and t': "tree_at h as' options F'" and na: "a \<notin> F'"
      by (auto elim!: tree_at_NodeE tree_at_NilE)
    from d 3 have d': "call_depth options \<le> fuel" by simp
    from IH [OF _ t' d'] 3 obtain h' rs F1 F2 where
      run: "filter_options_h fuel h as' ?f = Some (h', rs)"
      and r1: "tree_at h' rs (filter_options options ?pf) F1" and s1: "F1 \<subseteq> F'"
      and r2: "tree_at h' as' (options_after_filter options ?pf) F2" and s2: "F2 \<subseteq> F'"
      and fr: "\<forall>x. x \<notin> F' \<longrightarrow> h' x = h x" and sub: "set rs \<subseteq> set as'"
      by auto
    from fr na ha have ha': "h' a = Some \<lparr>d_label = l, d_value = v, d_sort = s, d_children = Some []\<rparr>"
      by simp
    have node: "tree_at h' (a # xs) (Item l v s (Some []) # ys) (insert a G)"
      if "tree_at h' xs ys G" and "G \<subseteq> F'" for xs ys G
      using tree_at_Node [OF ha' tree_at_Nil that(1)] that(2) na by auto
    have c2: "tree_at h' as (options_after_filter ts ?pf) (insert a F2)"
      unfolding as 3 using node [OF r2 s2] by simp
    show ?thesis
    proof (cases "P v")
      case True
      have "filter_options_h fuel h as ?f = Some (h', a # rs)"
        unfolding as using ha True run by simp
      moreover have "tree_at h' (a # rs) (filter_options ts ?pf) (insert a F1)"
        unfolding 3 using True node [OF r1 s1] by simp
      ultimately show ?thesis
        using c2 s1 s2 fr sub unfolding F as by (intro exI conjI) auto
    next
      case False
      have "filter_options_h fuel h as ?f = Some (h', rs)"
        unfolding as using ha False run by simp
      moreover have "tree_at h' rs (filter_options ts ?pf) F1"
        unfolding 3 using False r1 by simp
      ultimately show ?thesis
        using c2 s1 s2 fr sub unfolding F as by (intro exI conjI) auto
    qed
  next
    case (4 l v s c cs options)
    from t 4 obtain a as' F' Fc kids where as: "as = a # as'"
      and F: "F = insert a (Fc \<union> F')"
      and ha: "h a = Some \<lparr>d_label = l, d_value = v, d_sort = s, d_children = Some kids\<rparr>"
      and tk: "tree_at h kids (c # cs) Fc"
      and t': "tree_at h as' options F'"
      and na: "a \<notin> Fc" "a \<notin> F'" and dj: "Fc \<inter> F' = {}"
      by (auto elim!: tree_at_NodeE)
    from tk obtain k ks where kids: "kids = k # ks"
      by (auto elim: tree_at.cases)
    from d 4 have dk: "Suc (call_depth (c # cs)) \<le> fuel" and d': "call_depth options \<le> fuel"
      by simp_all
    show ?thesis
    proof (cases "P v")
      case False
      from IH [OF _ t' d'] 4 obtain h' rs F1 F2 where
        run: "filter_options_h fuel h as' ?f = Some (h', rs)"
        and r1: "tree_at h' rs (filter_options options ?pf) F1" and s1: "F1 \<subseteq> F'"
        and r2: "tree_at h' as' (options_after_filter options ?pf) F2" and s2: "F2 \<subseteq> F'"
        and fr: "\<forall>x. x \<notin> F' \<longrightarrow> h' x = h x" and sub: "set rs \<subseteq> set as'"
        by auto
      from fr na ha have ha':
        "h' a = Some \<lparr>d_label = l, d_value = v, d_sort = s, d_children = Some kids\<rparr>"
        by simp
      have tk': "tree_at h' kids (c # cs) Fc"
        using tk fr dj by (intro tree_at_frame [OF tk]) auto
      have "filter_options_h fuel h as ?f = Some (h', rs)"
        unfolding as using ha False run by simp
      moreover have "tree_at h' rs (filter_options ts ?pf) F1"
        unfolding 4 using False r1 by simp
      moreover have "tree_at h' as (options_after_filter ts ?pf) (insert a (Fc \<union> F2))"
        unfolding as 4 using False tree_at_Node [OF ha' tk' r2] na s2 dj by auto
      ultimately show ?thesis
        using s1 s2 fr sub unfolding F as by (intro exI conjI) auto
    next
      case True
      from dk obtain fuel' where fuel: "fuel = Suc fuel'" and dk': "call_depth (c # cs) \<le> fuel'"
        by (cases fuel) auto
      from IH [OF _ tk dk'] 4 obtain h1 rs1 G1 G2 where
        run1: "filter_options_h fuel' h kids ?f = Some (h1, rs1)"
        and k1: "tree_at h1 rs1 (filter_options (c # cs) ?pf) G1" and g1: "G1 \<subseteq> Fc"
        and fr1: "\<forall>x. x \<notin> Fc \<longrightarrow> h1 x = h x"
        by auto
      from fr1 na ha have ha1:
        "h1 a = Some \<lparr>d_label = l, d_value = v, d_sort = s, d_children = Some kids\<rparr>"
        by simp
      define h2 where
        "h2 = h1(a \<mapsto> \<lparr>d_label = l, d_value = v, d_sort = s, d_children = Some rs1\<rparr>)"
      have t2: "tree_at h2 as' options F'"
        using fr1 na dj by (intro tree_at_frame [OF t']) (auto simp: h2_def)
      from IH [OF _ t2 d'] 4 obtain h3 rs F1 F2 where
        run2: "filter_options_h fuel h2 as' ?f = Some (h3, rs)"
        and r1: "tree_at h3 rs (filter_options options ?pf) F1" and s1: "F1 \<subseteq> F'"
        and r2: "tree_at h3 as' (options_after_filter options ?pf) F2" and s2: "F2 \<subseteq> F'"
        and fr2: "\<forall>x. x \<notin> F' \<longrightarrow> h3 x = h2 x" and sub: "set rs \<subseteq> set as'"
        by auto
      from fr2 na have ha3:
        "h3 a = Some \<lparr>d_label = l, d_value = v, d_sort = s, d_children = Some rs1\<rparr>"
        by (simp add: h2_def)
      have "h3 x = h1 x" if "x \<in> G1" for x
      proof -
        from that g1 na dj have "x \<notin> F'" "x \<noteq> a" by auto
        with fr2 show ?thesis by (simp add: h2_def)
      qed
      then have k3: "tree_at h3 rs1 (filter_options (c # cs) ?pf) G1"
        by (rule tree_at_frame [OF k1])
      have "filter_options_h fuel h as ?f = Some (h3, a # rs)"
        unfolding as using ha True run1 ha1 run2 unfolding kids fuel h2_def by simp
      moreover have "tree_at h3 (a # rs) (filter_options ts ?pf) (insert a (G1 \<union> F1))"
        unfolding 4 using True tree_at_Node [OF ha3 k3 r1] na g1 s1 dj by auto
      moreover have "tree_at h3 as (options_after_filter ts ?pf) (insert a (G1 \<union> F2))"
        unfolding as 4 using True tree_at_Node [OF ha3 k3 r2] na g1 s2 dj by auto
      moreover have "\<forall>x. x \<notin> F \<longrightarrow> h3 x = h x"
        unfolding F using fr1 fr2 by (auto simp: h2_def)
      ultimately show ?thesis
        using g1 s1 s2 sub unfolding F as by (intro exI conjI) auto
    qed
  qed
qed


text \<open>
  Claim C10. Let the heap hold the memoized option tree of the group at the list \<open>cached\<close>
  that \<open>get_admin_action_options\<close> returns, every node in a dict object of its own. A call
  of \<open>get_admin_action_options_by_subject\<close> for a subject other than root returns the
  filtered tree in dict objects of the memoized tree (no copy is made), and it leaves the
  heap changed: at \<open>cached\<close> the heap now holds the tree in which every option that passed
  the filter and had children has lost the children that were filtered out. A later call
  for the root subject returns \<open>cached\<close> on the heap as it is, and so sees that tree.
\<close>

theorem filter_options_strips_memoized_tree:
  assumes "tree_at h cached (get_admin_action_options admins) F"
    and "call_depth (get_admin_action_options admins) \<le> fuel"
    and "subject \<noteq> ''u:'' @ ROOT"
  shows "\<exists>h' result F1 F2.
      get_admin_action_options_by_subject_h fuel ROOT e subject h cached = Some (h', result)
      \<and> tree_at h' result (get_admin_action_options_by_subject ROOT e subject admins) F1
      \<and> set result \<subseteq> set cached
      \<and> tree_at h' cached
           (options_after_filter (get_admin_action_options admins)
              (\<lambda>item. opt_value item \<in> casbin_get_subject_permissions e subject True)) F2
      \<and> get_admin_action_options_by_subject_h fuel ROOT e (''u:'' @ ROOT) h' cached
          = Some (h', cached)"
proof -
  from filter_options_h_tree [OF assms(1,2),
      of "\<lambda>v. v \<in> casbin_get_subject_permissions e subject True"]
  obtain h' rs F1 F2 where
    "filter_options_h fuel h cached
       (\<lambda>d. d_value d \<in> casbin_get_subject_permissions e subject True) = Some (h', rs)"
    and "tree_at h' rs (filter_options (get_admin_action_options admins)
           (\<lambda>t. opt_value t \<in> casbin_get_subject_permissions e subject True)) F1"
    and "tree_at h' cached (options_after_filter (get_admin_action_options admins)
           (\<lambda>t. opt_value t \<in> casbin_get_subject_permissions e subject True)) F2"
    and "set rs \<subseteq> set cached"
    by blast
  with assms(3) show ?thesis
    by (intro exI [of _ h'] exI [of _ rs] exI [of _ F1] exI [of _ F2])
       (simp add: get_admin_action_options_by_subject_h_def
          get_admin_action_options_by_subject_def)
qed

lemma example_options:
  "get_admin_action_options example_admins
   = [Item ''Users'' ''users#admin:page###'' None (Some
        [Item label_view_list ''users#admin:list###'' None None,
         Item ''Delete'' ''users#admin:delete###'' None None])]"
  unfolding example_admins_def by (rule users_site_options)

lemma example_permissions:
  "casbin_get_subject_permissions example_enforcer ''u:bob'' True
    = {''users#admin:page###'', ''users#admin:list###''}"
  unfolding example_enforcer_def by (rule bob_implicit_permissions)

lemma example_tree_at:
  "tree_at example_heap [0] (get_admin_action_options example_admins) {0, 1, 2}"
proof -
  have kids: "tree_at example_heap [1, 2]
        [Item label_view_list ''users#admin:list###'' None None,
         Item ''Delete'' ''users#admin:delete###'' None None] {1, 2}"
    by (intro tree_at_Leaf tree_at_Nil) (simp_all add: example_heap_def)
  have "tree_at example_heap [0]
      [Item ''Users'' ''users#admin:page###'' None (Some
        [Item label_view_list ''users#admin:list###'' None None,
         Item ''Delete'' ''users#admin:delete###'' None None])] (insert 0 ({1, 2} \<union> {}))"
    by (rule tree_at_Node [OF _ kids tree_at_Nil]) (simp_all add: example_heap_def)
  then show ?thesis
    unfolding example_options by (simp add: insert_commute)
qed

lemma example_after:
  "options_after_filter (get_admin_action_options example_admins)
     (\<lambda>item. opt_value item \<in> casbin_get_subject_permissions example_enforcer ''u:bob'' True)
   = [Item ''Users'' ''users#admin:page###'' None (Some
        [Item label_view_list ''users#admin:list###'' None None])]"
  unfolding example_options example_permissions by simp

lemma example_run:
  "get_admin_action_options_by_subject_h 1 ''root'' example_enforcer ''u:bob'' example_heap [0]
   = Some (example_heap(0 \<mapsto> \<lparr>d_label = ''Users'', d_value = ''users#admin:page###'',
              d_sort = None, d_children = Some [1]\<rparr>), [0])"
  unfolding get_admin_action_options_by_subject_h_def example_permissions
  by (simp add: example_heap_def)


text \<open>
  The claim at the small site. \<^verbatim>\<open>u:bob\<close> may see the page and its list, not the delete
  entry. After the call for \<^verbatim>\<open>u:bob\<close> the page's dict at address 0 names the list entry
  only, and that is the tree a later call for the root subject gets, instead of the tree
  with both entries that \<open>get_admin_action_options\<close> built.
\<close>

theorem filter_options_strips_memoized_tree_witness:
  "tree_at example_heap [0] (get_admin_action_options example_admins) {0, 1, 2}
   \<and> call_depth (get_admin_action_options example_admins) \<le> 1
   \<and> ''u:bob'' \<noteq> ''u:'' @ ''root''
   \<and> (\<exists>h' result F1 F2.
        get_admin_action_options_by_subject_h 1 ''root'' example_enforcer ''u:bob''
          example_heap [0] = Some (h', result)
        \<and> tree_at h' result
             (get_admin_action_options_by_subject ''root'' example_enforcer ''u:bob''
                example_admins) F1
        \<and> set result \<subseteq> set [0]
        \<and> tree_at h' [0]
             (options_after_filter (get_admin_action_options example_admins)
                (\<lambda>item. opt_value item
                   \<in> casbin_get_subject_permissions example_enforcer ''u:bob'' True)) F2
        \<and> get_admin_action_options_by_subject_h 1 ''root'' example_enforcer
             (''u:'' @ ''root'') h' [0] = Some (h', [0]))
   \<and> get_admin_action_options_by_subject_h 1 ''root'' example_enforcer ''u:bob''
        example_heap [0]
      = Some (example_heap(0 \<mapsto> \<lparr>d_label = ''Users'', d_value = ''users#admin:page###'',
                d_sort = None, d_children = Some [1]\<rparr>), [0])
   \<and> options_after_filter (get_admin_action_options example_admins)
        (\<lambda>item. opt_value item
           \<in> casbin_get_subject_permissions example_enforcer ''u:bob'' True)
      = [Item ''Users'' ''users#admin:page###'' None (Some
           [Item label_view_list ''users#admin:list###'' None None])]
   \<and> get_admin_action_options example_admins
      = [Item ''Users'' ''users#admin:page###'' None (Some
           [Item label_view_list ''users#admin:list###'' None None,
            Item ''Delete'' ''users#admin:delete###'' None None])]"
proof -
  have d: "call_depth (get_admin_action_options example_admins) \<le> 1"
    unfolding example_options by simp
  have s: "''u:bob'' \<noteq> ''u:'' @ ''root''"
    by simp
  from filter_options_strips_memoized_tree [OF example_tree_at d s, of example_enforcer]
    example_tree_at d s example_run example_after example_options
  show ?thesis
    by (intro conjI) assumption+
qed

section \<open>The option tree of a subject after an earlier call: the claim\<close>

lemma example_two_permissions_bob:
  "casbin_get_subject_permissions example_enforcer_two ''u:bob'' True
    = {''users#admin:page###'', ''users#admin:list###''}"
proof -
  have "get_permissions_for_user example_enforcer_two ''u:bob''
      = {[''u:bob'', ''users'', ''admin:page'', [], [], []],
         [''u:bob'', ''users'', ''admin:list'', [], [], []]}"
    unfolding get_permissions_for_user_def example_enforcer_two_def by auto
  then show ?thesis
    by (simp add: casbin_get_subject_permissions_def implicit_no_roles
          casbin_permission_encode_def example_enforcer_two_def)
qed

lemma example_two_permissions_eve:
  "casbin_get_subject_permissions example_enforcer_two ''u:eve'' True
    = {''users#admin:page###'', ''users#admin:delete###''}"
proof -
  have "get_permissions_for_user example_enforcer_two ''u:eve''
      = {[''u:eve'', ''users'', ''admin:page'', [], [], []],
         [''u:eve'', ''users'', ''admin:delete'', [], [], []]}"
    unfolding get_permissions_for_user_def example_enforcer_two_def by auto
  then show ?thesis
    by (simp add: casbin_get_subject_permissions_def implicit_no_roles
          casbin_permission_encode_def example_enforcer_two_def)
qed


lemma stripped_heap_no_full_tree:
  "\<not> (\<exists>F. tree_at
        (example_heap(0 \<mapsto> \<lparr>d_label = ''Users'', d_value = ''users#admin:page###'',
                         d_sort = None, d_children = Some [1]\<rparr>))
        [0] (get_admin_action_options example_admins) F)"
  unfolding example_options
  by (auto elim!: tree_at_NodeE tree_at_LeafE tree_at_NilE)

text \<open>
  Claim C7, on the code at a concrete input. The claim says that the root subject gets the
  full tree of \<open>get_admin_action_options\<close> and every other subject that tree filtered by
  its implicit permissions. The code does not, once a call has filtered the memoized tree.
  At the small site, the call for \<^verbatim>\<open>u:bob\<close> (page and list) leaves the page's dict at
  address 0 naming the list entry only. The later call for the root subject returns the
  memoized list on that heap: the page with the list entry, and no longer the tree with the
  delete entry that \<open>get_admin_action_options\<close> built. The later call for \<^verbatim>\<open>u:eve\<close>, who
  holds the page and its delete action, returns the page with no entry at all, where the
  full tree filtered by her permissions is the page with the delete entry.
\<close>

theorem get_admin_action_options_by_subject_sees_stripped_tree:
  "get_admin_action_options_by_subject_h 1 ''root'' example_enforcer_two ''u:bob''
     example_heap [0]
   = Some (example_heap(0 \<mapsto> \<lparr>d_label = ''Users'', d_value = ''users#admin:page###'',
                          d_sort = None, d_children = Some [1]\<rparr>), [0])
   \<and> get_admin_action_options_by_subject_h 1 ''root'' example_enforcer_two (''u:'' @ ''root'')
       (example_heap(0 \<mapsto> \<lparr>d_label = ''Users'', d_value = ''users#admin:page###'',
                        d_sort = None, d_children = Some [1]\<rparr>)) [0]
     = Some (example_heap(0 \<mapsto> \<lparr>d_label = ''Users'', d_value = ''users#admin:page###'',
                            d_sort = None, d_children = Some [1]\<rparr>), [0])
   \<and> tree_at
       (example_heap(0 \<mapsto> \<lparr>d_label = ''Users'', d_value = ''users#admin:page###'',
                        d_sort = None, d_children = Some [1]\<rparr>)) [0]
       [Item ''Users'' ''users#admin:page###'' None (Some
          [Item label_view_list ''users#admin:list###'' None None])] {0, 1}
   \<and> \<not> (\<exists>F. tree_at
       (example_heap(0 \<mapsto> \<lparr>d_label = ''Users'', d_value = ''users#admin:page###'',
                        d_sort = None, d_children = Some [1]\<rparr>)) [0]
       (get_admin_action_options example_admins) F)
   \<and> get_admin_action_options_by_subject_h 1 ''root'' example_enforcer_two ''u:eve''
       (example_heap(0 \<mapsto> \<lparr>d_label = ''Users'', d_value = ''users#admin:page###'',
                        d_sort = None, d_children = Some [1]\<rparr>)) [0]
     = Some (example_heap(0 \<mapsto> \<lparr>d_label = ''Users'', d_value = ''users#admin:page###'',
                            d_sort = None, d_children = Some []\<rparr>), [0])
   \<and> filter_options (get_admin_action_options example_admins)
       (\<lambda>item. opt_value item
          \<in> casbin_get_subject_permissions example_enforcer_two ''u:eve'' True)
     = [Item ''Users'' ''users#admin:page###'' None (Some
          [Item ''Delete'' ''users#admin:delete###'' None None])]"
proof (intro conjI)
  show "get_admin_action_options_by_subject_h 1 ''root'' example_enforcer_two ''u:bob''
     example_heap [0]
   = Some (example_heap(0 \<mapsto> \<lparr>d_label = ''Users'', d_value = ''users#admin:page###'',
                          d_sort = None, d_children = Some [1]\<rparr>), [0])"
    unfolding get_admin_action_options_by_subject_h_def example_two_permissions_bob
    by (simp add: example_heap_def)
  show "get_admin_action_options_by_subject_h 1 ''root'' example_enforcer_two (''u:'' @ ''root'')
       (example_heap(0 \<mapsto> \<lparr>d_label = ''Users'', d_value = ''users#admin:page###'',
                        d_sort = None, d_children = Some [1]\<rparr>)) [0]
     = Some (example_heap(0 \<mapsto> \<lparr>d_label = ''Users'', d_value = ''users#admin:page###'',
                            d_sort = None, d_children = Some [1]\<rparr>), [0])"
    by (simp add: get_admin_action_options_by_subject_h_def)
  have kids: "tree_at
       (example_heap(0 \<mapsto> \<lparr>d_label = ''Users'', d_value = ''users#admin:page###'',
                        d_sort = None, d_children = Some [1]\<rparr>)) [1]
       [Item label_view_list ''users#admin:list###'' None None] {1}"
    by (intro tree_at_Leaf tree_at_Nil) (simp_all add: example_heap_def)
  have "tree_at
       (example_heap(0 \<mapsto> \<lparr>d_label = ''Users'', d_value = ''users#admin:page###'',
                        d_sort = None, d_children = Some [1]\<rparr>)) [0]
       [Item ''Users'' ''users#admin:page###'' None (Some
          [Item label_view_list ''users#admin:list###'' None None])] (insert 0 ({1} \<union> {}))"
    by (rule tree_at_Node [OF _ kids tree_at_Nil]) simp_all
  then show "tree_at
       (example_heap(0 \<mapsto> \<lparr>d_label = ''Users'', d_value = ''users#admin:page###'',
                        d_sort = None, d_children = Some [1]\<rparr>)) [0]
       [Item ''Users'' ''users#admin:page###'' None (Some
          [Item label_view_list ''users#admin:list###'' None None])] {0, 1}"
    by simp
  show "\<not> (\<exists>F. tree_at
       (example_heap(0 \<mapsto> \<lparr>d_label = ''Users'', d_value = ''users#admin:page###'',
                        d_sort = None, d_children = Some [1]\<rparr>)) [0]
       (get_admin_action_options example_admins) F)"
    by (rule stripped_heap_no_full_tree)
  show "get_admin_action_options_by_subject_h 1 ''root'' example_enforcer_two ''u:eve''
       (example_heap(0 \<mapsto> \<lparr>d_label = ''Users'', d_value = ''users#admin:page###'',
                        d_sort = None, d_children = Some [1]\<rparr>)) [0]
     = Some (example_heap(0 \<mapsto> \<lparr>d_label = ''Users'', d_value = ''users#admin:page###'',
                            d_sort = None, d_children = Some []\<rparr>), [0])"
    unfolding get_admin_action_options_by_subject_h_def example_two_permissions_eve
    by (simp add: example_heap_def)
  show "filter_options (get_admin_action_options example_admins)
       (\<lambda>item. opt_value item
          \<in> casbin_get_subject_permissions example_enforcer_two ''u:eve'' True)
     = [Item ''Users'' ''users#admin:page###'' None (Some
          [Item ''Delete'' ''users#admin:delete###'' None None])]"
    unfolding example_options example_two_permissions_eve by simp
qed

end
